theory Spec2Isabelle
  imports Main
begin

section \<open>Errors and contexts\<close>

text \<open>
  Go's \<open>error\<close> values. The two sentinel errors returned by the Runs operations are
  package-level variables; every other error (made by \<open>errors.New\<close>, \<open>fmt.Errorf\<close>,
  or handed back by the transport or a library) is carried by its message text.
\<close>

datatype error = ErrInvalidRunID | ErrInvalidWorkspaceID | Err string

text \<open>A \<open>context.Context\<close> is an opaque handle that is only passed along.\<close>

datatype Context = Ctx string

section \<open>String identifiers (\<open>validStringID\<close>)\<close>

text \<open>
  \<open>reStringID = regexp.MustCompile(`^[a-zA-Z0-9\-\._]+$`)\<close>. The pattern is one
  bracket expression under \<open>+\<close>, anchored at both ends. Go's regexp package (RE2 syntax,
  no multi-line flag) lets \<open>^\<close> and \<open>$\<close> match at the beginning and the end of the
  text only, so the match succeeds exactly when the text is non-empty and each of its
  characters is in the class. A Go string is a sequence of bytes; every member of the
  class is a single ASCII byte.
\<close>

datatype class_item = Char_range char char | Lit char

fun item_matches :: "class_item \<Rightarrow> char \<Rightarrow> bool" where
  "item_matches (Char_range lo hi) c =
     ((of_char lo :: nat) \<le> of_char c \<and> (of_char c :: nat) \<le> of_char hi)"
| "item_matches (Lit l) c = (c = l)"

definition class_matches :: "class_item list \<Rightarrow> char \<Rightarrow> bool" where
  "class_matches items c = list_ex (\<lambda>i. item_matches i c) items"

definition reStringID_class :: "class_item list" where
  "reStringID_class =
     [Char_range (CHR ''a'') (CHR ''z''), Char_range (CHR ''A'') (CHR ''Z''),
      Char_range (CHR ''0'') (CHR ''9''), Lit (CHR ''-''), Lit (CHR ''.''), Lit (CHR ''_'')]"

definition reStringID_MatchString :: "string \<Rightarrow> bool" where
  "reStringID_MatchString s = (s \<noteq> [] \<and> list_all (class_matches reStringID_class) s)"

text \<open>\<open>validStringID(v *string)\<close>: the pointer is \<open>None\<close> when nil.\<close>

definition validStringID :: "string option \<Rightarrow> bool" where
  "validStringID v = (case v of None \<Rightarrow> False | Some s \<Rightarrow> reStringID_MatchString s)"

section \<open>The client\<close>

text \<open>
  The operations reach the service through \<open>s.client.newRequest\<close> and \<open>s.client.do\<close>,
  which are declared outside the files verified here. They are parameters of the model:
  functions on a world \<open>'w\<close> (the transport and the remote service) that they may read
  and change. \<open>do\<close> decodes the response into the value its last argument points to, so
  there is one \<open>do\<close> for each type that is decoded. The argument \<open>v\<close> of
  \<open>newRequest\<close> is an \<open>interface{}\<close>: the options of one of the operations, or nil.
  The two functions of Go's \<open>net/url\<close> that the operations call, \<open>url.QueryEscape\<close>
  and \<open>url.Parse\<close>, are carried in the same record; \<open>'u\<close> is the type of a parsed
  URL and a failed parse gives the text of its error.
\<close>

record request =
  req_method :: string
  req_path :: string

record 'lo RunListOptions =
  ListOptions :: 'lo
  Include :: "string option"

datatype RunReadOptions = RunReadOptions string
datatype RunApplyOptions = RunApplyOptions "string option"
datatype RunCancelOptions = RunCancelOptions "string option"
datatype RunForceCancelOptions = RunForceCancelOptions "string option"
datatype RunDiscardOptions = RunDiscardOptions "string option"

datatype 'lo body =
    Nil_body
  | RunList_body "'lo RunListOptions"
  | RunRead_body RunReadOptions
  | RunApply_body RunApplyOptions
  | RunCancel_body RunCancelOptions
  | RunForceCancel_body RunForceCancelOptions
  | RunDiscard_body RunDiscardOptions

text \<open>
  \<open>Run\<close> and \<open>Plan\<close> with their attributes; the timestamps and the relations
  (pointers to resources declared elsewhere) play no part in what follows.
  \<open>RunStatus\<close> and \<open>PlanStatus\<close> are string types.
\<close>

record Run =
  run_ID :: string
  run_HasChanges :: bool
  run_IsDestroy :: bool
  run_Message :: string
  run_PositionInQueue :: int
  run_Refresh :: bool
  run_RefreshOnly :: bool
  run_ReplaceAddrs :: "string list"
  run_Source :: string
  run_Status :: string
  run_TargetAddrs :: "string list"

record 'pg RunList =
  Pagination :: "'pg option"
  Items :: "Run list"

type_synonym PlanStatus = string

record Plan =
  ID :: string
  HasChanges :: bool
  LogReadURL :: string
  ResourceAdditions :: int
  ResourceChanges :: int
  ResourceDestructions :: int
  Status :: PlanStatus

record ('w, 'lo, 'pg, 'u) client =
  baseURL_Host :: string
  newRequest :: "string \<Rightarrow> string \<Rightarrow> 'lo body \<Rightarrow> 'w \<Rightarrow> (error + request) \<times> 'w"
  do_Run :: "Context \<Rightarrow> request \<Rightarrow> 'w \<Rightarrow> (error + Run) \<times> 'w"
  do_RunList :: "Context \<Rightarrow> request \<Rightarrow> 'w \<Rightarrow> (error + 'pg RunList) \<times> 'w"
  do_Plan :: "Context \<Rightarrow> request \<Rightarrow> 'w \<Rightarrow> (error + Plan) \<times> 'w"
  do_nil :: "Context \<Rightarrow> request \<Rightarrow> 'w \<Rightarrow> error option \<times> 'w"
  QueryEscape :: "string \<Rightarrow> string"
  url_Parse :: "string \<Rightarrow> string + 'u"

section \<open>Runs\<close>








section \<open>Plans\<close>

definition PlanCanceled :: PlanStatus where "PlanCanceled = ''canceled''"
definition PlanCreated :: PlanStatus where "PlanCreated = ''created''"
definition PlanErrored :: PlanStatus where "PlanErrored = ''errored''"
definition PlanFinished :: PlanStatus where "PlanFinished = ''finished''"
definition PlanMFAWaiting :: PlanStatus where "PlanMFAWaiting = ''mfa_waiting''"
definition PlanPending :: PlanStatus where "PlanPending = ''pending''"
definition PlanQueued :: PlanStatus where "PlanQueued = ''queued''"
definition PlanRunning :: PlanStatus where "PlanRunning = ''running''"
definition PlanUnreachable :: PlanStatus where "PlanUnreachable = ''unreachable''"

definition Plans_Read ::
  "('w, 'lo, 'pg, 'u) client \<Rightarrow> Context \<Rightarrow> string \<Rightarrow> 'w \<Rightarrow> (error + Plan) \<times> 'w" where
  "Plans_Read c ctx planID w =
     (if \<not> validStringID (Some planID) then (Inl (Err ''invalid value for plan ID''), w)
      else
        let u = ''plans/'' @ QueryEscape c planID in
        case newRequest c ''GET'' u Nil_body w of
          (Inl err, w1) \<Rightarrow> (Inl err, w1)
        | (Inr req, w1) \<Rightarrow>
            (case do_Plan c ctx req w1 of
               (Inl err, w2) \<Rightarrow> (Inl err, w2)
             | (Inr p, w2) \<Rightarrow> (Inr p, w2)))"

text \<open>
  The closure \<open>done\<close> built by \<open>Logs\<close>. It captures the receiver, the context and the
  plan \<open>p\<close> that \<open>Logs\<close> read, and reads the plan again by \<open>p.ID\<close> each time it is
  called; its Go result \<open>(bool, error)\<close> is a pair.
\<close>

definition Logs_done ::
  "('w, 'lo, 'pg, 'u) client \<Rightarrow> Context \<Rightarrow> Plan \<Rightarrow> 'w \<Rightarrow> (bool \<times> error option) \<times> 'w" where
  "Logs_done c ctx p w =
     (case Plans_Read c ctx (ID p) w of
        (Inl err, w1) \<Rightarrow> ((False, Some err), w1)
      | (Inr p', w1) \<Rightarrow>
          (if Status p' = PlanCanceled \<or> Status p' = PlanErrored
              \<or> Status p' = PlanFinished \<or> Status p' = PlanUnreachable
           then ((True, None), w1)
           else ((False, None), w1)))"

text \<open>
  The struct \<open>LogReader\<close> is declared in another file; \<open>Logs\<close> sets these four of its
  fields.
\<close>

record ('w, 'lo, 'pg, 'u) LogReader =
  lr_client :: "('w, 'lo, 'pg, 'u) client"
  lr_ctx :: Context
  lr_done :: "'w \<Rightarrow> (bool \<times> error option) \<times> 'w"
  lr_logURL :: 'u

definition Plans_Logs ::
  "('w, 'lo, 'pg, 'u) client \<Rightarrow> Context \<Rightarrow> string \<Rightarrow> 'w
     \<Rightarrow> (error + ('w, 'lo, 'pg, 'u) LogReader) \<times> 'w" where
  "Plans_Logs c ctx planID w =
     (if \<not> validStringID (Some planID) then (Inl (Err ''invalid value for plan ID''), w)
      else
        case Plans_Read c ctx planID w of
          (Inl err, w1) \<Rightarrow> (Inl err, w1)
        | (Inr p, w1) \<Rightarrow>
            (if LogReadURL p = [] then
               (Inl (Err (''plan '' @ planID @ '' does not have a log URL'')), w1)
             else
               case url_Parse c (LogReadURL p) of
                 Inl err \<Rightarrow> (Inl (Err (''invalid log URL: '' @ err)), w1)
               | Inr u \<Rightarrow>
                   (Inr \<lparr> lr_client = c, lr_ctx = ctx, lr_done = Logs_done c ctx p,
                          lr_logURL = u \<rparr>, w1)))"

text \<open>
  A client for running the operations on concrete inputs. Its world is the log of the
  calls made to \<open>newRequest\<close> and \<open>do\<close>, with the answers the service will give to
  the coming plan reads, in order; every other read is answered \<open>not found\<close>.
\<close>

datatype call = NewRequest_call string string | Do_call request

type_synonym scripted_world = "call list \<times> (error + Plan) list"

definition scripted_client :: "(scripted_world, unit, unit, string) client" where
  "scripted_client =
     \<lparr> baseURL_Host = ''app.terraform.io'',
       newRequest = (\<lambda>m p b (log, answers).
          (Inr \<lparr>req_method = m, req_path = p\<rparr>, (log @ [NewRequest_call m p], answers))),
       do_Run = (\<lambda>ctx r (log, answers).
          (Inl (Err ''not found''), (log @ [Do_call r], answers))),
       do_RunList = (\<lambda>ctx r (log, answers).
          (Inl (Err ''not found''), (log @ [Do_call r], answers))),
       do_Plan = (\<lambda>ctx r (log, answers).
          (case answers of
             [] \<Rightarrow> (Inl (Err ''not found''), (log @ [Do_call r], []))
           | a # as \<Rightarrow> (a, (log @ [Do_call r], as)))),
       do_nil = (\<lambda>ctx r (log, answers). (None, (log @ [Do_call r], answers))),
       QueryEscape = (\<lambda>s. s),
       url_Parse = (\<lambda>s. if s = '':'' then Inl ''missing protocol scheme'' else Inr s) \<rparr>"

definition plan_with :: "string \<Rightarrow> string \<Rightarrow> PlanStatus \<Rightarrow> Plan" where
  "plan_with i u st =
     \<lparr> ID = i, HasChanges = False, LogReadURL = u, ResourceAdditions = 0,
       ResourceChanges = 0, ResourceDestructions = 0, Status = st \<rparr>"

definition read_plan_1_calls :: "call list" where
  "read_plan_1_calls =
     [NewRequest_call ''GET'' ''plans/plan-1'',
      Do_call \<lparr>req_method = ''GET'', req_path = ''plans/plan-1''\<rparr>]"

section \<open>Events\<close>

type_synonym EventType = string

definition EventOrganizationCreated :: EventType where
  "EventOrganizationCreated = ''organization_created''"
definition EventOrganizationDeleted :: EventType where
  "EventOrganizationDeleted = ''organization_deleted''"
definition EventWorkspaceCreated :: EventType where
  "EventWorkspaceCreated = ''workspace_created''"
definition EventWorkspaceDeleted :: EventType where
  "EventWorkspaceDeleted = ''workspace_deleted''"
definition EventRunCreated :: EventType where
  "EventRunCreated = ''run_created''"
definition EventRunCompleted :: EventType where
  "EventRunCompleted = ''run_completed''"
definition EventRunCanceled :: EventType where
  "EventRunCanceled = ''run_canceled''"
definition EventRunApplied :: EventType where
  "EventRunApplied = ''run_applied''"
definition EventRunPlanned :: EventType where
  "EventRunPlanned = ''run_planned''"
definition EventRunPlannedAndFinished :: EventType where
  "EventRunPlannedAndFinished = ''run_planned_and_finished''"
definition EventPlanQueued :: EventType where
  "EventPlanQueued = ''plan_queued''"
definition EventApplyQueued :: EventType where
  "EventApplyQueued = ''apply_queued''"
definition EventError :: EventType where
  "EventError = ''error''"

text \<open>The constants of the \<open>const\<close> block, in the order of their declaration.\<close>

definition EventType_constants :: "EventType list" where
  "EventType_constants =
     [EventOrganizationCreated, EventOrganizationDeleted, EventWorkspaceCreated,
      EventWorkspaceDeleted, EventRunCreated, EventRunCompleted, EventRunCanceled,
      EventRunApplied, EventRunPlanned, EventRunPlannedAndFinished, EventPlanQueued,
      EventApplyQueued, EventError]"

text \<open>
  The event tags as the specification lists them: organization and workspace created or
  deleted; run created, completed, canceled, applied, planned; plan queued and apply
  queued; the synthetic error marker.
\<close>

definition spec_event_types :: "EventType list" where
  "spec_event_types =
     [''organization_created'', ''organization_deleted'', ''workspace_created'',
      ''workspace_deleted'', ''run_created'', ''run_completed'', ''run_canceled'',
      ''run_applied'', ''run_planned'', ''plan_queued'', ''apply_queued'', ''error'']"

text \<open>
  \<open>Payload\<close> is an \<open>interface{}\<close>: what \<open>json.Unmarshal\<close> stores there for a JSON
  value (a number is kept as its literal), or the Go string of a synthetic error event.
\<close>

datatype payload =
    P_nil
  | P_bool bool
  | P_number string
  | P_string string
  | P_array "payload list"
  | P_object "(string \<times> payload) list"

record Event =
  Type :: EventType
  Payload :: payload

subsection \<open>The connection, the channel and the delivery goroutine\<close>

text \<open>
  \<open>Subscribe\<close> shares a websocket connection and a channel between three parties: the
  goroutine it starts, the consumer that receives from \<open>C()\<close>, and the caller of
  \<open>Close()\<close>. The model is a state machine on one record holding what they share, with
  one action for each party; a schedule (a list of actions) is one interleaving.

  The connection is the environment. \<open>conn_incoming\<close> is what the successive calls of
  \<open>ReadMessage\<close> will return, in order: the text of an error, or the bytes of a message;
  when it is empty the call blocks. \<open>conn_read\<close> is what the calls have returned so
  far, \<open>conn_written\<close> the frames written by \<open>WriteMessage\<close>, and \<open>conn_closed\<close> says
  that the connection's \<open>Close\<close> has run.
\<close>

datatype read_result = Read_error string | Read_message string

datatype frame = CloseMessage nat string

definition CloseNormalClosure :: nat where
  "CloseNormalClosure = 1000"

text \<open>
  A Go channel: its capacity, the values buffered and whether it was closed.
  \<open>make(chan Event)\<close> gives no capacity.
\<close>

record chan =
  ch_cap :: nat
  ch_buf :: "Event list"
  ch_closed :: bool

definition make_chan :: "nat \<Rightarrow> chan" where
  "make_chan n = \<lparr> ch_cap = n, ch_buf = [], ch_closed = False \<rparr>"

text \<open>
  Where the goroutine stands: in \<open>c.ReadMessage()\<close>; in the send \<open>ch <- ev\<close> that ends
  the loop body; in one of the two sends of an error event, each followed by
  \<open>return\<close>; or returned (the deferred \<open>c.Close()\<close> has run).
\<close>

datatype goroutine =
    At_ReadMessage
  | At_send_then_loop Event
  | At_send_then_return Event
  | Returned

record sub_state =
  conn_incoming :: "read_result list"
  conn_read :: "read_result list"
  conn_written :: "frame list"
  conn_closed :: bool
  ch :: chan
  task :: goroutine
  consumer :: "Event list"

text \<open>
  \<open>Subscribe\<close>. \<open>websocket.DefaultDialer.Dial\<close> is a parameter: on the network \<open>'n\<close>
  it gives the text of an error or a connection, which is known by what it will deliver.
  For this \<open>url.URL\<close> (a scheme, a host and a path) \<open>u.String()\<close> is
  \<open>scheme://host/path\<close>. The argument \<open>id\<close> is not used. On success the state
  returned is the one in which the goroutine has been started and stands at the top of
  its loop.
\<close>

definition Subscribe ::
  "(string \<Rightarrow> 'n \<Rightarrow> (string + read_result list) \<times> 'n) \<Rightarrow> ('w, 'lo, 'pg, 'u) client
     \<Rightarrow> string \<Rightarrow> 'n \<Rightarrow> (error + sub_state) \<times> 'n" where
  "Subscribe Dial c id' n =
     (let u = ''wss'' @ ''://'' @ baseURL_Host c @ ''/events'' in
      case Dial u n of
        (Inl err, n1) \<Rightarrow> (Inl (Err err), n1)
      | (Inr incoming, n1) \<Rightarrow>
          (Inr \<lparr> conn_incoming = incoming, conn_read = [], conn_written = [],
                 conn_closed = False, ch = make_chan 0, task = At_ReadMessage,
                 consumer = [] \<rparr>, n1))"

text \<open>
  The loop body from the return of \<open>ReadMessage\<close> to the send it reaches.
  \<open>json.Unmarshal\<close> into a fresh \<open>Event\<close> is the parameter \<open>unmarshal\<close>: the text of
  its error, or the event decoded.
\<close>

definition after_read :: "(string \<Rightarrow> string + Event) \<Rightarrow> read_result \<Rightarrow> goroutine" where
  "after_read unmarshal r =
     (case r of
        Read_error err \<Rightarrow>
          At_send_then_return
            \<lparr> Type = EventError,
              Payload = P_string (''websocket read error: '' @ err @ [CHR 0x0A]) \<rparr>
      | Read_message msg \<Rightarrow>
          (case unmarshal msg of
             Inl err \<Rightarrow>
               At_send_then_return
                 \<lparr> Type = EventError,
                   Payload = P_string (''websocket decode error: '' @ err @ [CHR 0x0A]) \<rparr>
           | Inr ev \<Rightarrow> At_send_then_loop ev))"

text \<open>
  One step of the goroutine. A send goes through on its own only when the buffer has
  room; otherwise it waits for a receiver (\<open>recv_step\<close>). A step that cannot be taken
  leaves the state as it is.
\<close>

definition task_step :: "(string \<Rightarrow> string + Event) \<Rightarrow> sub_state \<Rightarrow> sub_state" where
  "task_step unmarshal s =
     (case task s of
        At_ReadMessage \<Rightarrow>
          (case conn_incoming s of
             [] \<Rightarrow> s
           | r # rs \<Rightarrow>
               s\<lparr> conn_incoming := rs, conn_read := conn_read s @ [r],
                  task := after_read unmarshal r \<rparr>)
      | At_send_then_loop ev \<Rightarrow>
          (if length (ch_buf (ch s)) < ch_cap (ch s)
           then s\<lparr> ch := (ch s)\<lparr> ch_buf := ch_buf (ch s) @ [ev] \<rparr>, task := At_ReadMessage \<rparr>
           else s)
      | At_send_then_return ev \<Rightarrow>
          (if length (ch_buf (ch s)) < ch_cap (ch s)
           then s\<lparr> ch := (ch s)\<lparr> ch_buf := ch_buf (ch s) @ [ev] \<rparr>, task := Returned,
                   conn_closed := True \<rparr>
           else s)
      | Returned \<Rightarrow> s)"

text \<open>
  The consumer receives from \<open>C()\<close>: the oldest buffered event, or with an empty buffer
  the event of the goroutine's pending send, which completes that send.
\<close>

definition recv_step :: "sub_state \<Rightarrow> sub_state" where
  "recv_step s =
     (case ch_buf (ch s) of
        e # es \<Rightarrow> s\<lparr> ch := (ch s)\<lparr> ch_buf := es \<rparr>, consumer := consumer s @ [e] \<rparr>
      | [] \<Rightarrow>
          (case task s of
             At_send_then_loop ev \<Rightarrow>
               s\<lparr> consumer := consumer s @ [ev], task := At_ReadMessage \<rparr>
           | At_send_then_return ev \<Rightarrow>
               s\<lparr> consumer := consumer s @ [ev], task := Returned, conn_closed := True \<rparr>
           | At_ReadMessage \<Rightarrow> s
           | Returned \<Rightarrow> s))"

text \<open>
  \<open>conn.WriteMessage\<close>: a write on a connection that has been closed fails; otherwise
  the connection decides (\<open>werr\<close> is the text of its error, if any), and a write that
  succeeds puts the frame on the wire.
\<close>

definition WriteMessage :: "string option \<Rightarrow> frame \<Rightarrow> sub_state \<Rightarrow> error option \<times> sub_state" where
  "WriteMessage werr f s =
     (if conn_closed s then (Some (Err ''use of closed network connection''), s)
      else
        case werr of
          Some e \<Rightarrow> (Some (Err e), s)
        | None \<Rightarrow> (None, s\<lparr> conn_written := conn_written s @ [f] \<rparr>))"

definition Close :: "string option \<Rightarrow> sub_state \<Rightarrow> error option \<times> sub_state" where
  "Close werr s =
     (case WriteMessage werr (CloseMessage CloseNormalClosure []) s of
        (Some err, s1) \<Rightarrow> (Some err, s1)
      | (None, s1) \<Rightarrow> (None, s1))"

datatype action = Task | Recv | Close_call "string option"

definition step :: "(string \<Rightarrow> string + Event) \<Rightarrow> action \<Rightarrow> sub_state \<Rightarrow> sub_state" where
  "step unmarshal a s =
     (case a of
        Task \<Rightarrow> task_step unmarshal s
      | Recv \<Rightarrow> recv_step s
      | Close_call werr \<Rightarrow> snd (Close werr s))"

fun exec :: "(string \<Rightarrow> string + Event) \<Rightarrow> action list \<Rightarrow> sub_state \<Rightarrow> sub_state" where
  "exec unmarshal [] s = s"
| "exec unmarshal (a # as) s = exec unmarshal as (step unmarshal a s)"

text \<open>
  For running the machine on concrete inputs: a decoder that takes the message text as
  the event's type when it is one of the declared tags and fails otherwise, and a dialer
  on a network that keeps the addresses dialed so far and maps each address to what its
  server will push (no entry: the connection is refused).
\<close>

definition tag_unmarshal :: "string \<Rightarrow> string + Event" where
  "tag_unmarshal msg =
     (if msg \<in> set EventType_constants then Inr \<lparr> Type = msg, Payload = P_nil \<rparr>
      else Inl ''invalid character'')"

definition table_Dial ::
  "string \<Rightarrow> string list \<times> (string \<times> read_result list) list
     \<Rightarrow> (string + read_result list) \<times> string list \<times> (string \<times> read_result list) list" where
  "table_Dial u n =
     (case n of
        (dialed, servers) \<Rightarrow>
          (case map_of servers u of
             None \<Rightarrow> (Inl ''dial tcp: connection refused'', (dialed @ [u], servers))
           | Some incoming \<Rightarrow> (Inr incoming, (dialed @ [u], servers))))"

subsection \<open>What holds along every schedule\<close>

text \<open>
  The events handed to the channel that the consumer has not received yet: those in the
  buffer and the one of a pending send.
\<close>

definition pending :: "sub_state \<Rightarrow> Event list" where
  "pending s =
     ch_buf (ch s) @
     (case task s of
        At_ReadMessage \<Rightarrow> []
      | At_send_then_loop ev \<Rightarrow> [ev]
      | At_send_then_return ev \<Rightarrow> [ev]
      | Returned \<Rightarrow> [])"

text \<open>
  The invariant of the machine started by \<open>Subscribe\<close>. The channel has no capacity,
  holds nothing and is open; and the sends the loop body reached for the results read so
  far are the sends of the events the consumer has received, in order, followed by the
  send the goroutine stands in, if any.
\<close>

definition delivery_inv :: "(string \<Rightarrow> string + Event) \<Rightarrow> sub_state \<Rightarrow> bool" where
  "delivery_inv unmarshal s =
     (ch_cap (ch s) = 0 \<and> ch_buf (ch s) = [] \<and> \<not> ch_closed (ch s) \<and>
      (case task s of
         At_ReadMessage \<Rightarrow>
           map (after_read unmarshal) (conn_read s) = map At_send_then_loop (consumer s)
           \<and> \<not> conn_closed s
       | At_send_then_loop ev \<Rightarrow>
           map (after_read unmarshal) (conn_read s) = map At_send_then_loop (consumer s @ [ev])
           \<and> \<not> conn_closed s
       | At_send_then_return ev \<Rightarrow>
           map (after_read unmarshal) (conn_read s) =
             map At_send_then_loop (consumer s) @ [At_send_then_return ev]
           \<and> \<not> conn_closed s
       | Returned \<Rightarrow>
           consumer s \<noteq> []
           \<and> map (after_read unmarshal) (conn_read s) =
               map At_send_then_loop (butlast (consumer s))
               @ [At_send_then_return (last (consumer s))]
           \<and> conn_closed s))"

text \<open>
  After a failed read or decode: the goroutine stands in the send of the error event
  \<open>ev\<close> and the consumer has what it had (\<open>got\<close>), or the goroutine has returned and
  the consumer has received \<open>ev\<close> on top; nothing more was read (\<open>rd\<close>, \<open>inc\<close>), and
  the channel is empty and open.
\<close>

definition after_failure ::
  "Event list \<Rightarrow> read_result list \<Rightarrow> read_result list \<Rightarrow> Event \<Rightarrow> sub_state \<Rightarrow> bool" where
  "after_failure got rd inc ev s =
     (ch_cap (ch s) = 0 \<and> ch_buf (ch s) = [] \<and> \<not> ch_closed (ch s)
      \<and> conn_read s = rd \<and> conn_incoming s = inc
      \<and> (task s = At_send_then_return ev \<and> consumer s = got
          \<or> task s = Returned \<and> consumer s = got @ [ev]))"

text \<open>
  Inputs for concrete runs: the address \<open>Subscribe\<close> dials for the scripted client, the
  state of a subscription just returned, and the five frames of the specification's
  first scenario.
\<close>

definition events_url :: string where
  "events_url = ''wss://app.terraform.io/events''"

definition started :: "read_result list \<Rightarrow> sub_state" where
  "started incoming =
     \<lparr> conn_incoming = incoming, conn_read = [], conn_written = [], conn_closed = False,
       ch = make_chan 0, task = At_ReadMessage, consumer = [] \<rparr>"

definition scenario_A :: "string list" where
  "scenario_A =
     [''organization_created'', ''workspace_created'', ''run_created'', ''plan_queued'',
      ''run_planned'']"

section \<open>The log reader's read operation\<close>

text \<open>
  Modelled from the spec: the read operation of \<open>LogReader\<close>. \<open>Plans.Logs\<close> builds the
  reader, but the file that declares the struct and its \<open>Read\<close> method is not among the
  sources verified here; what follows is the contract of the specification's section on
  the log reader, clause by clause.

  The remote side is a script: the results of the successive fetches, the successive
  answers of the completion predicate (\<open>True\<close>: the job is terminal), and the successive
  states of the cancellation signal at the moments it is checked (an exhausted list: it
  has not fired). A read that needs a fetch or a predicate answer the script does not
  hold is still blocked. Each read returns its outcome together with what it observed,
  in order.
\<close>

datatype fetch_result = Fetched string | Transient_failure string | Fatal_failure string

datatype outcome = Chunk string | End_of_stream | Read_failed error | Cancelled | Blocked

datatype observation =
    Fetch_obs fetch_result
  | Report_obs bool
  | Wait_obs nat

text \<open>
  Modelled from the spec: the retry and backoff policy of the reader (its declaration is
  in the missing file). It holds the bounds of the wait interval and the ceiling on the
  attempts after transient failures. The interval grows from its floor by doubling and
  stops at its bound.
\<close>

record policy =
  min_interval :: nat
  max_interval :: nat
  max_attempts :: nat

definition backoff :: "policy \<Rightarrow> nat \<Rightarrow> nat" where
  "backoff pol k = min (max_interval pol) (min_interval pol * 2 ^ k)"

text \<open>The cancellation signal at a check: the head of the script, if there is one.\<close>

definition fired :: "bool list \<Rightarrow> bool" where
  "fired cs = (case cs of [] \<Rightarrow> False | c # _ \<Rightarrow> c)"

text \<open>
  Modelled from the spec: the loop of one read (the method \<open>Read\<close> is in the missing
  file). \<open>final\<close> says that the predicate has reported the job terminal
  and that the fetch now made is the one further attempt; \<open>attempts\<close> counts the retries
  after transient failures, \<open>waits\<close> the waits after empty fetches.
  \<^item> Bytes are returned at once.
  \<^item> An empty fetch ends the stream when it is the final attempt. Otherwise the
    predicate is consulted: terminal, one more fetch is made; not terminal, the loop
    waits (unless cancelled) and fetches again.
  \<^item> A transient failure is retried (unless cancelled) as long as the ceiling allows,
    and surfaces beyond it; any other failure surfaces at once.
\<close>

fun read_loop ::
  "policy \<Rightarrow> bool \<Rightarrow> nat \<Rightarrow> nat \<Rightarrow> fetch_result list \<Rightarrow> bool list \<Rightarrow> bool list
     \<Rightarrow> observation list \<Rightarrow> outcome \<times> observation list" where
  "read_loop pol final attempts waits [] ds cs tr = (Blocked, tr)"
| "read_loop pol final attempts waits (Fetched bs # fs) ds cs tr =
     (if bs \<noteq> [] then (Chunk bs, tr @ [Fetch_obs (Fetched bs)])
      else if final then (End_of_stream, tr @ [Fetch_obs (Fetched bs)])
      else
        case ds of
          [] \<Rightarrow> (Blocked, tr @ [Fetch_obs (Fetched bs)])
        | d # ds' \<Rightarrow>
            if d then
              read_loop pol True attempts waits fs ds' cs
                (tr @ [Fetch_obs (Fetched bs), Report_obs d])
            else if fired cs then
              (Cancelled, tr @ [Fetch_obs (Fetched bs), Report_obs d])
            else
              read_loop pol False attempts (Suc waits) fs ds' (tl cs)
                (tr @ [Fetch_obs (Fetched bs), Report_obs d, Wait_obs (backoff pol waits)]))"
| "read_loop pol final attempts waits (Transient_failure e # fs) ds cs tr =
     (if fired cs then (Cancelled, tr @ [Fetch_obs (Transient_failure e)])
      else if attempts < max_attempts pol then
        read_loop pol final (Suc attempts) waits fs ds (tl cs)
          (tr @ [Fetch_obs (Transient_failure e), Wait_obs (backoff pol attempts)])
      else (Read_failed (Err e), tr @ [Fetch_obs (Transient_failure e)]))"
| "read_loop pol final attempts waits (Fatal_failure e # fs) ds cs tr =
     (Read_failed (Err e), tr @ [Fetch_obs (Fatal_failure e)])"

text \<open>
  Modelled from the spec: the state of the reader (the struct is in the missing file).
  It keeps its offset and its policy between reads.
\<close>

record reader =
  offset :: nat
  reader_policy :: policy

text \<open>
  Modelled from the spec: the read operation (the method \<open>Read\<close> is in the missing
  file). It runs the loop from a fresh start; a read that returns bytes advances the
  offset by their number.
\<close>

definition LogReader_Read ::
  "reader \<Rightarrow> fetch_result list \<Rightarrow> bool list \<Rightarrow> bool list
     \<Rightarrow> outcome \<times> observation list \<times> reader" where
  "LogReader_Read r fs ds cs =
     (case read_loop (reader_policy r) False 0 0 fs ds cs [] of
        (Chunk bs, tr) \<Rightarrow> (Chunk bs, tr, r\<lparr> offset := offset r + length bs \<rparr>)
      | (out, tr) \<Rightarrow> (out, tr, r))"

text \<open>A reader for running the operation on concrete inputs.\<close>

definition example_reader :: reader where
  "example_reader =
     \<lparr> offset = 0,
       reader_policy = \<lparr> min_interval = 1, max_interval = 8, max_attempts = 3 \<rparr> \<rparr>"

section \<open>Invalid identifiers are rejected before any request\<close>




section \<open>The completion predicate of a plan's log reader\<close>

lemmas PlanStatus_defs = PlanCanceled_def PlanErrored_def PlanFinished_def PlanUnreachable_def

lemma valid_plan_1: "validStringID (Some ''plan-1'')"
  by (simp add: validStringID_def reStringID_MatchString_def class_matches_def
      reStringID_class_def)

lemma read_scripted:
  "Plans_Read scripted_client ctx ''plan-1'' (log, a # as) = (a, (log @ read_plan_1_calls, as))"
  by (cases a)
    (simp_all add: Plans_Read_def valid_plan_1 scripted_client_def Let_def
      read_plan_1_calls_def)

text \<open>
  C6. The predicate that \<open>Plans.Logs\<close> builds reads the plan again. When the read gives
  a plan, the predicate answers without an error, and its answer is true exactly when
  that plan's status is one of canceled, errored, finished and unreachable; when the read
  fails, it answers false together with the error of the read. The world it leaves is
  the one the read leaves.
\<close>

theorem C6_done_terminal_set:
  "(Plans_Read c ctx (ID p) w = (Inr p', w1) \<longrightarrow>
      Logs_done c ctx p w =
        ((Status p' \<in> {''canceled'', ''errored'', ''finished'', ''unreachable''}, None), w1))
   \<and> (Plans_Read c ctx (ID p) w = (Inl err, w1) \<longrightarrow>
      Logs_done c ctx p w = ((False, Some err), w1))"
  by (auto simp: Logs_done_def PlanStatus_defs)

theorem C6_done_terminal_set_witness:
  "Logs_done scripted_client (Ctx ''bg'') (plan_with ''plan-1'' ''https://logs/1'' ''running'')
       ([], [Inr (plan_with ''plan-1'' ''https://logs/1'' ''finished'')])
     = ((True, None), (read_plan_1_calls, []))
   \<and> Logs_done scripted_client (Ctx ''bg'') (plan_with ''plan-1'' ''https://logs/1'' ''running'')
       ([], [Inr (plan_with ''plan-1'' ''https://logs/1'' ''running'')])
     = ((False, None), (read_plan_1_calls, []))
   \<and> Logs_done scripted_client (Ctx ''bg'') (plan_with ''plan-1'' ''https://logs/1'' ''running'')
       ([], [Inl (Err ''gone'')])
     = ((False, Some (Err ''gone'')), (read_plan_1_calls, []))"
  using
    C6_done_terminal_set [where c = scripted_client and ctx = "Ctx ''bg''"
      and p = "plan_with ''plan-1'' ''https://logs/1'' ''running''"
      and w = "([], [Inr (plan_with ''plan-1'' ''https://logs/1'' ''finished'')])"
      and p' = "plan_with ''plan-1'' ''https://logs/1'' ''finished''"
      and ?w1.0 = "(read_plan_1_calls, [])"]
    C6_done_terminal_set [where c = scripted_client and ctx = "Ctx ''bg''"
      and p = "plan_with ''plan-1'' ''https://logs/1'' ''running''"
      and w = "([], [Inr (plan_with ''plan-1'' ''https://logs/1'' ''running'')])"
      and p' = "plan_with ''plan-1'' ''https://logs/1'' ''running''"
      and ?w1.0 = "(read_plan_1_calls, [])"]
    C6_done_terminal_set [where c = scripted_client and ctx = "Ctx ''bg''"
      and p = "plan_with ''plan-1'' ''https://logs/1'' ''running''"
      and w = "([], [Inl (Err ''gone'')])"
      and err = "Err ''gone''"
      and ?w1.0 = "(read_plan_1_calls, [])"]
  by (simp add: read_scripted plan_with_def)

section \<open>The checks of \<open>Plans.Logs\<close>\<close>

lemma Plans_Read_invalid:
  "\<not> validStringID (Some planID) \<Longrightarrow>
     Plans_Read c ctx planID w = (Inl (Err ''invalid value for plan ID''), w)"
  by (simp add: Plans_Read_def)

text \<open>
  C9. \<open>Plans.Logs\<close> returns no reader and an error when the plan ID is not a valid
  string ID, when reading the plan fails, when the plan read has an empty
  \<open>LogReadURL\<close>, and when \<open>LogReadURL\<close> does not parse. When the read gives a plan
  whose \<open>LogReadURL\<close> is not empty and parses, it returns the reader that carries the
  client, the caller's context, the completion predicate for that plan and the parsed
  URL; and a reader is returned in that case only.
\<close>

theorem C9_Logs_checks:
  "(\<not> validStringID (Some planID) \<longrightarrow>
      Plans_Logs c ctx planID w = (Inl (Err ''invalid value for plan ID''), w))
   \<and> (Plans_Read c ctx planID w = (Inl err, w1) \<longrightarrow>
      Plans_Logs c ctx planID w = (Inl err, w1))
   \<and> (Plans_Read c ctx planID w = (Inr p, w1) \<and> LogReadURL p = [] \<longrightarrow>
      Plans_Logs c ctx planID w =
        (Inl (Err (''plan '' @ planID @ '' does not have a log URL'')), w1))
   \<and> (Plans_Read c ctx planID w = (Inr p, w1) \<and> LogReadURL p \<noteq> []
        \<and> url_Parse c (LogReadURL p) = Inl perr \<longrightarrow>
      Plans_Logs c ctx planID w = (Inl (Err (''invalid log URL: '' @ perr)), w1))
   \<and> (Plans_Read c ctx planID w = (Inr p, w1) \<and> LogReadURL p \<noteq> []
        \<and> url_Parse c (LogReadURL p) = Inr u \<longrightarrow>
      Plans_Logs c ctx planID w =
        (Inr \<lparr> lr_client = c, lr_ctx = ctx, lr_done = Logs_done c ctx p, lr_logURL = u \<rparr>, w1))
   \<and> (Plans_Logs c ctx planID w = (Inr r, w1) \<longrightarrow>
        validStringID (Some planID)
        \<and> (\<exists>p u. Plans_Read c ctx planID w = (Inr p, w1) \<and> LogReadURL p \<noteq> []
              \<and> url_Parse c (LogReadURL p) = Inr u
              \<and> r = \<lparr> lr_client = c, lr_ctx = ctx, lr_done = Logs_done c ctx p,
                      lr_logURL = u \<rparr>))"
proof (cases "validStringID (Some planID)")
  case False
  then show ?thesis
    by (simp add: Plans_Logs_def Plans_Read_invalid)
next
  case True
  then show ?thesis
    by (auto simp: Plans_Logs_def split: prod.splits sum.splits if_splits)
qed

lemma invalid_bad_id: "\<not> validStringID (Some ''plan 1'')"
  by (simp add: validStringID_def reStringID_MatchString_def class_matches_def
      reStringID_class_def)

theorem C9_Logs_checks_witness:
  "Plans_Logs scripted_client (Ctx ''bg'') ''plan 1'' ([], [])
     = (Inl (Err ''invalid value for plan ID''), ([], []))
   \<and> Plans_Logs scripted_client (Ctx ''bg'') ''plan-1'' ([], [Inl (Err ''gone'')])
     = (Inl (Err ''gone''), (read_plan_1_calls, []))
   \<and> Plans_Logs scripted_client (Ctx ''bg'') ''plan-1''
       ([], [Inr (plan_with ''plan-1'' [] ''running'')])
     = (Inl (Err ''plan plan-1 does not have a log URL''), (read_plan_1_calls, []))
   \<and> Plans_Logs scripted_client (Ctx ''bg'') ''plan-1''
       ([], [Inr (plan_with ''plan-1'' '':'' ''running'')])
     = (Inl (Err ''invalid log URL: missing protocol scheme''), (read_plan_1_calls, []))
   \<and> Plans_Logs scripted_client (Ctx ''bg'') ''plan-1''
       ([], [Inr (plan_with ''plan-1'' ''https://logs/1'' ''running'')])
     = (Inr \<lparr> lr_client = scripted_client, lr_ctx = Ctx ''bg'',
              lr_done = Logs_done scripted_client (Ctx ''bg'')
                 (plan_with ''plan-1'' ''https://logs/1'' ''running''),
              lr_logURL = ''https://logs/1'' \<rparr>, (read_plan_1_calls, []))"
proof -
  have rd: "Plans_Read scripted_client (Ctx ''bg'') ''plan-1'' ([], [a]) = (a, (read_plan_1_calls, []))"
    for a
    by (simp add: read_scripted)
  have url1: "LogReadURL (plan_with ''plan-1'' [] ''running'') = []"
    and url2: "LogReadURL (plan_with ''plan-1'' '':'' ''running'') = '':''"
    and url3: "LogReadURL (plan_with ''plan-1'' ''https://logs/1'' ''running'') = ''https://logs/1''"
    by (simp_all add: plan_with_def)
  have parse2: "url_Parse scripted_client '':'' = Inl ''missing protocol scheme''"
    and parse3: "url_Parse scripted_client ''https://logs/1'' = Inr ''https://logs/1''"
    by (simp_all add: scripted_client_def)
  have c1: "Plans_Logs scripted_client (Ctx ''bg'') ''plan 1'' ([], [])
     = (Inl (Err ''invalid value for plan ID''), ([], []))"
    using C9_Logs_checks [where c = scripted_client and ctx = "Ctx ''bg''"
        and planID = "''plan 1''" and w = "([], [])"] invalid_bad_id
    by blast
  have c2: "Plans_Logs scripted_client (Ctx ''bg'') ''plan-1'' ([], [Inl (Err ''gone'')])
     = (Inl (Err ''gone''), (read_plan_1_calls, []))"
    using C9_Logs_checks [where c = scripted_client and ctx = "Ctx ''bg''"
        and planID = "''plan-1''" and w = "([], [Inl (Err ''gone'')])" and err = "Err ''gone''"
        and ?w1.0 = "(read_plan_1_calls, [])"] rd
    by blast
  have c3: "Plans_Logs scripted_client (Ctx ''bg'') ''plan-1''
       ([], [Inr (plan_with ''plan-1'' [] ''running'')])
     = (Inl (Err (''plan '' @ ''plan-1'' @ '' does not have a log URL'')), (read_plan_1_calls, []))"
    using C9_Logs_checks [where c = scripted_client and ctx = "Ctx ''bg''"
        and planID = "''plan-1''" and w = "([], [Inr (plan_with ''plan-1'' [] ''running'')])"
        and p = "plan_with ''plan-1'' [] ''running''"
        and ?w1.0 = "(read_plan_1_calls, [])"] rd url1
    by blast
  have c4: "Plans_Logs scripted_client (Ctx ''bg'') ''plan-1''
       ([], [Inr (plan_with ''plan-1'' '':'' ''running'')])
     = (Inl (Err (''invalid log URL: '' @ ''missing protocol scheme'')), (read_plan_1_calls, []))"
    using C9_Logs_checks [where c = scripted_client and ctx = "Ctx ''bg''"
        and planID = "''plan-1''" and w = "([], [Inr (plan_with ''plan-1'' '':'' ''running'')])"
        and p = "plan_with ''plan-1'' '':'' ''running''"
        and perr = "''missing protocol scheme''"
        and ?w1.0 = "(read_plan_1_calls, [])"] rd url2 parse2
    by (metis list.distinct(1))
  have c5: "Plans_Logs scripted_client (Ctx ''bg'') ''plan-1''
       ([], [Inr (plan_with ''plan-1'' ''https://logs/1'' ''running'')])
     = (Inr \<lparr> lr_client = scripted_client, lr_ctx = Ctx ''bg'',
              lr_done = Logs_done scripted_client (Ctx ''bg'')
                 (plan_with ''plan-1'' ''https://logs/1'' ''running''),
              lr_logURL = ''https://logs/1'' \<rparr>, (read_plan_1_calls, []))"
    using C9_Logs_checks [where c = scripted_client and ctx = "Ctx ''bg''"
        and planID = "''plan-1''"
        and w = "([], [Inr (plan_with ''plan-1'' ''https://logs/1'' ''running'')])"
        and p = "plan_with ''plan-1'' ''https://logs/1'' ''running''"
        and u = "''https://logs/1''"
        and ?w1.0 = "(read_plan_1_calls, [])"] rd url3 parse3
    by (metis list.distinct(1))
  from c1 c2 c3 c4 c5 show ?thesis
    by simp
qed

section \<open>Subscribing\<close>

text \<open>
  C5. \<open>Subscribe\<close> dials the address \<open>wss://<host>/events\<close> once, whatever the
  identifier. If the dial fails, it returns that error and no subscription, and the
  network is as that one dial left it: nothing is retried and no goroutine exists. If
  the dial succeeds, it returns no error and the subscription, whose channel is
  \<open>make(chan Event)\<close> and whose goroutine stands at the top of its loop.
\<close>

theorem C5_Subscribe_dial:
  "(Dial (''wss://'' @ baseURL_Host c @ ''/events'') n = (Inl err, n1) \<longrightarrow>
      Subscribe Dial c id' n = (Inl (Err err), n1))
   \<and> (Dial (''wss://'' @ baseURL_Host c @ ''/events'') n = (Inr incoming, n1) \<longrightarrow>
      Subscribe Dial c id' n =
        (Inr \<lparr> conn_incoming = incoming, conn_read = [], conn_written = [],
               conn_closed = False, ch = make_chan 0, task = At_ReadMessage,
               consumer = [] \<rparr>, n1))"
  by (simp add: Subscribe_def)

theorem C5_Subscribe_dial_witness:
  "Subscribe table_Dial scripted_client ''sub-1'' ([], [])
     = (Inl (Err ''dial tcp: connection refused''), ([''wss://app.terraform.io/events''], []))
   \<and> Subscribe table_Dial scripted_client ''sub-1''
       ([], [(''wss://app.terraform.io/events'', [Read_message ''run_created''])])
     = (Inr \<lparr> conn_incoming = [Read_message ''run_created''], conn_read = [],
              conn_written = [], conn_closed = False, ch = make_chan 0,
              task = At_ReadMessage, consumer = [] \<rparr>,
        ([''wss://app.terraform.io/events''],
         [(''wss://app.terraform.io/events'', [Read_message ''run_created''])]))"
  using
    C5_Subscribe_dial [where Dial = table_Dial and c = scripted_client and n = "([], [])"
      and err = "''dial tcp: connection refused''"
      and ?n1.0 = "([''wss://app.terraform.io/events''], [])" and id' = "''sub-1''"]
    C5_Subscribe_dial [where Dial = table_Dial and c = scripted_client
      and n = "([], [(''wss://app.terraform.io/events'', [Read_message ''run_created''])])"
      and incoming = "[Read_message ''run_created'']"
      and ?n1.0 = "([''wss://app.terraform.io/events''],
         [(''wss://app.terraform.io/events'', [Read_message ''run_created''])])"
      and id' = "''sub-1''"]
  by (simp add: table_Dial_def scripted_client_def)

section \<open>The event types\<close>

lemmas EventType_defs =
  EventOrganizationCreated_def EventOrganizationDeleted_def EventWorkspaceCreated_def
  EventWorkspaceDeleted_def EventRunCreated_def EventRunCompleted_def EventRunCanceled_def
  EventRunApplied_def EventRunPlanned_def EventRunPlannedAndFinished_def
  EventPlanQueued_def EventApplyQueued_def EventError_def

text \<open>
  C7, as the code has it. The claim that the constants of the code are exactly the
  twelve tags of the specification fails: the code declares a thirteenth,
  \<open>EventRunPlannedAndFinished\<close>.
\<close>

theorem C7_counterexample:
  "EventRunPlannedAndFinished \<in> set EventType_constants
   \<and> EventRunPlannedAndFinished \<notin> set spec_event_types"
  by (simp add: EventType_constants_def spec_event_types_def EventRunPlannedAndFinished_def)

text \<open>
  C7, amended. The event types the code declares are the twelve tags of the
  specification and \<open>run_planned_and_finished\<close>: thirteen distinct constants, among
  which every tag of the specification is found.
\<close>

theorem C7_event_types:
  "set EventType_constants = set spec_event_types \<union> {EventRunPlannedAndFinished}
   \<and> distinct EventType_constants \<and> length EventType_constants = 13
   \<and> distinct spec_event_types \<and> length spec_event_types = 12"
  by (simp add: EventType_constants_def spec_event_types_def EventType_defs insert_commute)

section \<open>The delivery goroutine along every schedule\<close>

lemma after_read_cases:
  "(\<exists>ev. after_read um r = At_send_then_loop ev) \<or> (\<exists>ev. after_read um r = At_send_then_return ev)"
  by (auto simp: after_read_def split: read_result.splits sum.splits)

lemma after_read_loop_iff:
  "after_read um (Read_message m) = At_send_then_loop ev \<longleftrightarrow> um m = Inr ev"
  by (auto simp: after_read_def split: sum.splits)

lemma delivery_inv_task_step:
  assumes "delivery_inv um s"
  shows "delivery_inv um (task_step um s)"
proof (cases "task s")
  case At_ReadMessage
  show ?thesis
  proof (cases "conn_incoming s")
    case Nil
    with At_ReadMessage assms show ?thesis
      by (simp add: task_step_def)
  next
    case (Cons r rs)
    from after_read_cases [of um r] show ?thesis
    proof (elim disjE exE)
      fix ev assume "after_read um r = At_send_then_loop ev"
      with At_ReadMessage Cons assms show ?thesis
        by (simp add: task_step_def delivery_inv_def)
    next
      fix ev assume "after_read um r = At_send_then_return ev"
      with At_ReadMessage Cons assms show ?thesis
        by (simp add: task_step_def delivery_inv_def)
    qed
  qed
next
  case (At_send_then_loop ev)
  with assms show ?thesis
    by (simp add: task_step_def delivery_inv_def)
next
  case (At_send_then_return ev)
  with assms show ?thesis
    by (simp add: task_step_def delivery_inv_def)
next
  case Returned
  with assms show ?thesis
    by (simp add: task_step_def)
qed

lemma delivery_inv_recv_step:
  assumes "delivery_inv um s"
  shows "delivery_inv um (recv_step s)"
proof -
  from assms have buf: "ch_buf (ch s) = []"
    by (simp add: delivery_inv_def)
  show ?thesis
  proof (cases "task s")
    case At_ReadMessage
    with assms buf show ?thesis by (simp add: recv_step_def)
  next
    case (At_send_then_loop ev)
    with assms buf show ?thesis by (simp add: recv_step_def delivery_inv_def)
  next
    case (At_send_then_return ev)
    with assms buf show ?thesis by (simp add: recv_step_def delivery_inv_def)
  next
    case Returned
    with assms buf show ?thesis by (simp add: recv_step_def)
  qed
qed

lemma Close_frame:
  "ch (snd (Close werr s)) = ch s \<and> task (snd (Close werr s)) = task s
   \<and> consumer (snd (Close werr s)) = consumer s \<and> conn_read (snd (Close werr s)) = conn_read s
   \<and> conn_incoming (snd (Close werr s)) = conn_incoming s
   \<and> conn_closed (snd (Close werr s)) = conn_closed s"
  by (simp add: Close_def WriteMessage_def split: option.splits)

lemma delivery_inv_Close:
  "delivery_inv um s \<Longrightarrow> delivery_inv um (snd (Close werr s))"
  by (simp add: delivery_inv_def Close_frame split: goroutine.splits)

lemma delivery_inv_step:
  "delivery_inv um s \<Longrightarrow> delivery_inv um (step um a s)"
  by (cases a) (simp_all add: step_def delivery_inv_task_step delivery_inv_recv_step
      delivery_inv_Close)

lemma delivery_inv_exec:
  "delivery_inv um s \<Longrightarrow> delivery_inv um (exec um acts s)"
  by (induction acts arbitrary: s) (simp_all add: delivery_inv_step)

lemma Subscribe_Inr:
  assumes "Subscribe Dial c id' n = (Inr s0, n1)"
  shows "\<exists>incoming. s0 = \<lparr> conn_incoming = incoming, conn_read = [], conn_written = [],
               conn_closed = False, ch = make_chan 0, task = At_ReadMessage,
               consumer = [] \<rparr>"
  using assms
  by (auto simp: Subscribe_def Let_def split: prod.splits sum.splits)

lemma delivery_inv_Subscribe:
  assumes "Subscribe Dial c id' n = (Inr s0, n1)"
  shows "delivery_inv um s0"
  using Subscribe_Inr [OF assms]
  by (auto simp: delivery_inv_def make_chan_def)

lemma delivery_inv_reach:
  "Subscribe Dial c id' n = (Inr s0, n1) \<Longrightarrow> delivery_inv um (exec um acts s0)"
  by (simp add: delivery_inv_Subscribe delivery_inv_exec)

lemma sends_of_messages:
  assumes "map (after_read um) (map Read_message frames) = map At_send_then_loop evs"
  shows "map um frames = map Inr evs"
  using assms
proof (induction frames arbitrary: evs)
  case Nil
  then show ?case by simp
next
  case (Cons m ms)
  then obtain ev evs' where evs: "evs = ev # evs'"
    by (cases evs) auto
  with Cons.prems have "after_read um (Read_message m) = At_send_then_loop ev"
    and "map (after_read um) (map Read_message ms) = map At_send_then_loop evs'"
    by simp_all
  with Cons.IH [of evs'] evs show ?case
    by (simp add: after_read_loop_iff)
qed

lemma after_read_ok:
  "um m = Inr ev \<Longrightarrow> after_read um (Read_message m) = At_send_then_loop ev"
  by (simp add: after_read_def)

lemma delivered_when_all_decode:
  assumes inv: "delivery_inv um s"
    and rd: "conn_read s = map Read_message frames"
    and ok: "\<forall>m \<in> set frames. \<exists>ev. um m = Inr ev"
  shows "map um frames = map Inr (consumer s @ pending s)"
    and "task s = At_ReadMessage \<Longrightarrow> map um frames = map Inr (consumer s)"
proof -
  have no_return: "At_send_then_return ev \<notin> set (map (after_read um) (conn_read s))" for ev
    using ok rd by (auto simp: after_read_ok)
  have buf: "ch_buf (ch s) = []"
    using inv by (simp add: delivery_inv_def)
  show "map um frames = map Inr (consumer s @ pending s)"
  proof (cases "task s")
    case At_ReadMessage
    with inv rd buf show ?thesis
      by (simp add: delivery_inv_def pending_def sends_of_messages)
  next
    case (At_send_then_loop ev)
    with inv rd buf sends_of_messages [of um frames "consumer s @ [ev]"] show ?thesis
      by (simp add: delivery_inv_def pending_def)
  next
    case (At_send_then_return ev)
    with inv have "At_send_then_return ev \<in> set (map (after_read um) (conn_read s))"
      by (simp add: delivery_inv_def)
    with no_return show ?thesis by blast
  next
    case Returned
    with inv have "At_send_then_return (last (consumer s))
        \<in> set (map (after_read um) (conn_read s))"
      by (simp add: delivery_inv_def)
    with no_return show ?thesis by blast
  qed
  then show "task s = At_ReadMessage \<Longrightarrow> map um frames = map Inr (consumer s)"
    using buf by (simp add: pending_def)
qed

lemma read_and_receive:
  assumes "task s = At_ReadMessage" and "ch_buf (ch s) = []"
    and "conn_incoming s = Read_message m # rest" and "um m = Inr ev"
  shows "exec um [Task, Recv] s =
           s\<lparr> conn_incoming := rest, conn_read := conn_read s @ [Read_message m],
              consumer := consumer s @ [ev] \<rparr>"
  using assms
  by (simp add: step_def task_step_def recv_step_def after_read_ok)

lemma draining_run:
  assumes "task s = At_ReadMessage" and "ch_buf (ch s) = []"
    and "conn_incoming s = map Read_message frames @ rest"
    and "\<forall>m \<in> set frames. \<exists>ev. um m = Inr ev"
  shows "\<exists>evs. map um frames = map Inr evs
           \<and> exec um (concat (replicate (length frames) [Task, Recv])) s =
               s\<lparr> conn_incoming := rest, conn_read := conn_read s @ map Read_message frames,
                  consumer := consumer s @ evs \<rparr>"
  using assms
proof (induction frames arbitrary: s)
  case Nil
  then show ?case by simp
next
  case (Cons m ms)
  from Cons.prems(4) obtain ev where ev: "um m = Inr ev"
    by auto
  let ?s1 = "s\<lparr> conn_incoming := map Read_message ms @ rest,
                conn_read := conn_read s @ [Read_message m], consumer := consumer s @ [ev] \<rparr>"
  have step1: "exec um [Task, Recv] s = ?s1"
    using Cons.prems(1,2,3) ev by (intro read_and_receive) simp_all
  have "\<exists>evs. map um ms = map Inr evs
           \<and> exec um (concat (replicate (length ms) [Task, Recv])) ?s1 =
               ?s1\<lparr> conn_incoming := rest, conn_read := conn_read ?s1 @ map Read_message ms,
                  consumer := consumer ?s1 @ evs \<rparr>"
    using Cons.prems by (intro Cons.IH) simp_all
  then obtain evs where evs: "map um ms = map Inr evs"
    and run: "exec um (concat (replicate (length ms) [Task, Recv])) ?s1 =
               ?s1\<lparr> conn_incoming := rest, conn_read := conn_read ?s1 @ map Read_message ms,
                  consumer := consumer ?s1 @ evs \<rparr>"
    by blast
  have "exec um (concat (replicate (length (m # ms)) [Task, Recv])) s =
          exec um (concat (replicate (length ms) [Task, Recv])) (exec um [Task, Recv] s)"
    by simp
  with step1 run have "exec um (concat (replicate (length (m # ms)) [Task, Recv])) s =
      s\<lparr> conn_incoming := rest, conn_read := conn_read s @ map Read_message (m # ms),
         consumer := consumer s @ (ev # evs) \<rparr>"
    by simp
  with ev evs show ?case
    by (intro exI [of _ "ev # evs"]) simp
qed

text \<open>
  C1. Take a subscription returned by \<open>Subscribe\<close> and any schedule of the goroutine,
  the consumer and calls of \<open>Close\<close>. If the frames received on the connection so far
  all decode, then the events forwarded (those the consumer has received, followed by
  the one still in its send) are the events decoded from these frames, one for each
  frame and in the order of the frames; and whenever the goroutine is back in
  \<open>ReadMessage\<close> the consumer has received all of them. With a consumer that receives
  after each read, the frames the connection delivers are all forwarded.
\<close>

theorem C1_delivery_in_order:
  assumes sub: "Subscribe Dial c id' n = (Inr s0, n1)"
    and run: "s = exec unmarshal acts s0"
    and ok: "\<forall>m \<in> set frames. \<exists>ev. unmarshal m = Inr ev"
  shows "(conn_read s = map Read_message frames \<longrightarrow>
            map unmarshal frames = map Inr (consumer s @ pending s)
            \<and> (task s = At_ReadMessage \<longrightarrow> map unmarshal frames = map Inr (consumer s)))
       \<and> (conn_incoming s0 = map Read_message frames @ rest \<longrightarrow>
            map unmarshal frames =
              map Inr (consumer (exec unmarshal
                 (concat (replicate (length frames) [Task, Recv])) s0)))"
proof -
  have inv: "delivery_inv unmarshal s"
    using sub run by (simp add: delivery_inv_reach)
  have safety: "map unmarshal frames = map Inr (consumer s @ pending s)
            \<and> (task s = At_ReadMessage \<longrightarrow> map unmarshal frames = map Inr (consumer s))"
    if "conn_read s = map Read_message frames"
    using delivered_when_all_decode [OF inv that ok] by blast
  have live: "map unmarshal frames =
              map Inr (consumer (exec unmarshal
                 (concat (replicate (length frames) [Task, Recv])) s0))"
    if inc: "conn_incoming s0 = map Read_message frames @ rest"
  proof -
    from Subscribe_Inr [OF sub] have s0: "task s0 = At_ReadMessage" "ch_buf (ch s0) = []"
      "consumer s0 = []"
      by (auto simp: make_chan_def)
    from draining_run [OF s0(1,2) inc ok] s0(3) show ?thesis
      by auto
  qed
  from safety live show ?thesis by blast
qed

lemma Subscribe_table_Dial:
  "Subscribe table_Dial scripted_client id' ([], [(events_url, incoming)])
     = (Inr (started incoming), ([events_url], [(events_url, incoming)]))"
  by (simp add: Subscribe_def table_Dial_def scripted_client_def events_url_def started_def Let_def)

lemma scenario_A_decodes: "\<forall>m \<in> set scenario_A. \<exists>ev. tag_unmarshal m = Inr ev"
  by (simp add: scenario_A_def tag_unmarshal_def EventType_constants_def EventType_defs)

theorem C1_delivery_in_order_witness:
  "Subscribe table_Dial scripted_client ''sub-1'' ([], [(events_url, map Read_message scenario_A)])
     = (Inr (started (map Read_message scenario_A)),
        ([events_url], [(events_url, map Read_message scenario_A)]))
   \<and> conn_read (exec tag_unmarshal (concat (replicate 5 [Task, Recv]))
        (started (map Read_message scenario_A))) = map Read_message scenario_A
   \<and> map tag_unmarshal scenario_A =
       map Inr (consumer (exec tag_unmarshal (concat (replicate 5 [Task, Recv]))
         (started (map Read_message scenario_A))))
   \<and> map Type (consumer (exec tag_unmarshal (concat (replicate 5 [Task, Recv]))
         (started (map Read_message scenario_A)))) = scenario_A"
proof -
  let ?init = "started (map Read_message scenario_A)"
  let ?fin = "exec tag_unmarshal (concat (replicate 5 [Task, Recv])) ?init"
  have sub: "Subscribe table_Dial scripted_client ''sub-1''
      ([], [(events_url, map Read_message scenario_A)])
     = (Inr ?init, ([events_url], [(events_url, map Read_message scenario_A)]))"
    by (rule Subscribe_table_Dial)
  have rd: "conn_read ?fin = map Read_message scenario_A"
    by code_simp
  have at_read: "task ?fin = At_ReadMessage"
    by code_simp
  have types: "map Type (consumer ?fin) = scenario_A"
    by code_simp
  from C1_delivery_in_order [OF sub refl scenario_A_decodes, of "concat (replicate 5 [Task, Recv])"]
    rd at_read
  have "map tag_unmarshal scenario_A = map Inr (consumer ?fin)"
    by blast
  with sub rd types show ?thesis
    by blast
qed

section \<open>End of stream in the log reader's read operation\<close>

lemma read_loop_end_of_stream:
  "read_loop pol final attempts waits fs ds cs tr = (End_of_stream, tr') \<Longrightarrow>
   (final \<Longrightarrow> Report_obs True \<in> set tr) \<Longrightarrow>
   \<exists>tr0. tr' = tr0 @ [Fetch_obs (Fetched [])] \<and> Report_obs True \<in> set tr0"
proof (induction pol final attempts waits fs ds cs tr rule: read_loop.induct)
  case (1 pol final attempts waits ds cs tr)
  then show ?case by simp
next
  case (2 pol final attempts waits bs fs ds cs tr)
  show ?case
  proof (cases "bs \<noteq> []")
    case True
    with 2 show ?thesis by simp
  next
    case empty: False
    show ?thesis
    proof (cases final)
      case True
      with 2 empty show ?thesis by auto
    next
      case nonfinal: False
      show ?thesis
      proof (cases ds)
        case Nil
        with 2 empty nonfinal show ?thesis by simp
      next
        case (Cons d ds')
        show ?thesis
        proof (cases d)
          case True
          with 2(1)[OF _ nonfinal Cons True] 2(3) empty nonfinal Cons show ?thesis
            by simp
        next
          case notd: False
          show ?thesis
          proof (cases "fired cs")
            case True
            with 2(3) empty nonfinal Cons notd show ?thesis by simp
          next
            case False
            with 2(2)[OF _ nonfinal Cons notd False] 2(3) empty nonfinal Cons notd
            show ?thesis by simp
          qed
        qed
      qed
    qed
  qed
next
  case (3 pol final attempts waits e fs ds cs tr)
  show ?case
  proof (cases "fired cs")
    case True
    with 3 show ?thesis by simp
  next
    case nf: False
    show ?thesis
    proof (cases "attempts < max_attempts pol")
      case True
      with 3(1)[OF nf True] 3(2,3) nf show ?thesis by simp
    next
      case False
      with 3 nf show ?thesis by simp
    qed
  qed
next
  case (4 pol final attempts waits e fs ds cs tr)
  then show ?case by simp
qed

lemma read_loop_reports:
  "read_loop pol final attempts waits fs ds cs tr = (out, tr') \<Longrightarrow>
   Report_obs d \<in> set tr' \<Longrightarrow> Report_obs d \<in> set tr \<or> d \<in> set ds"
proof (induction pol final attempts waits fs ds cs tr rule: read_loop.induct)
  case (2 pol final attempts waits bs fs ds cs tr)
  then show ?case
    by (auto split: if_splits list.splits)
next
  case (3 pol final attempts waits e fs ds cs tr)
  then show ?case
    by (auto split: if_splits)
qed auto

lemma LogReader_Read_loop:
  "LogReader_Read r fs ds cs = (out, tr, r') \<Longrightarrow>
   read_loop (reader_policy r) False 0 0 fs ds cs [] = (out, tr)"
  by (auto simp: LogReader_Read_def split: prod.splits outcome.splits)

text \<open>
  C2, on the read operation as the specification gives it. Whatever the script of the
  remote side, a read signals end of stream only if the completion predicate reported the
  job terminal during it and its last observation, after that report, is a fetch that
  returned zero bytes. So a read in which no report was terminal does not signal end of
  stream; and when the predicate never answers terminal, no read does, however many
  fetches in a row come back empty.
\<close>

theorem C2_end_of_stream:
  assumes "LogReader_Read r fs ds cs = (out, tr, r')"
  shows "(out = End_of_stream \<longrightarrow>
            (\<exists>pre post. tr = pre @ Report_obs True # post @ [Fetch_obs (Fetched [])]))
       \<and> (Report_obs True \<notin> set tr \<longrightarrow> out \<noteq> End_of_stream)
       \<and> ((\<forall>d \<in> set ds. \<not> d) \<longrightarrow> out \<noteq> End_of_stream)"
proof -
  have loop: "read_loop (reader_policy r) False 0 0 fs ds cs [] = (out, tr)"
    using assms by (rule LogReader_Read_loop)
  have eos: "\<exists>tr0. tr = tr0 @ [Fetch_obs (Fetched [])] \<and> Report_obs True \<in> set tr0"
    if "out = End_of_stream"
    using loop that read_loop_end_of_stream by blast
  have a: "\<exists>pre post. tr = pre @ Report_obs True # post @ [Fetch_obs (Fetched [])]"
    if "out = End_of_stream"
  proof -
    from eos [OF that] obtain tr0 where
      tr: "tr = tr0 @ [Fetch_obs (Fetched [])]" and mem: "Report_obs True \<in> set tr0"
      by blast
    from mem obtain pre post where "tr0 = pre @ Report_obs True # post"
      by (meson split_list)
    with tr show ?thesis by auto
  qed
  have b: "out \<noteq> End_of_stream" if "Report_obs True \<notin> set tr"
    using eos that by auto
  have c: "out \<noteq> End_of_stream" if "\<forall>d \<in> set ds. \<not> d"
  proof
    assume "out = End_of_stream"
    from eos [OF this] have "Report_obs True \<in> set tr" by auto
    from read_loop_reports [OF loop this] that show False by auto
  qed
  from a b c show ?thesis by blast
qed

theorem C2_end_of_stream_witness:
  "LogReader_Read example_reader (replicate 5 (Fetched [])) [False, False, False, True] []
     = (End_of_stream,
        [Fetch_obs (Fetched []), Report_obs False, Wait_obs 1,
         Fetch_obs (Fetched []), Report_obs False, Wait_obs 2,
         Fetch_obs (Fetched []), Report_obs False, Wait_obs 4,
         Fetch_obs (Fetched []), Report_obs True, Fetch_obs (Fetched [])],
        example_reader)
   \<and> (\<exists>pre post.
        [Fetch_obs (Fetched []), Report_obs False, Wait_obs 1,
         Fetch_obs (Fetched []), Report_obs False, Wait_obs 2,
         Fetch_obs (Fetched []), Report_obs False, Wait_obs 4,
         Fetch_obs (Fetched []), Report_obs True, Fetch_obs (Fetched [])]
        = pre @ Report_obs True # post @ [Fetch_obs (Fetched [])])
   \<and> fst (LogReader_Read example_reader (replicate 5 (Fetched [])) [False, False, False, False] [])
       \<noteq> End_of_stream"
proof -
  have run1:
    "LogReader_Read example_reader (replicate 5 (Fetched [])) [False, False, False, True] []
     = (End_of_stream,
        [Fetch_obs (Fetched []), Report_obs False, Wait_obs 1,
         Fetch_obs (Fetched []), Report_obs False, Wait_obs 2,
         Fetch_obs (Fetched []), Report_obs False, Wait_obs 4,
         Fetch_obs (Fetched []), Report_obs True, Fetch_obs (Fetched [])],
        example_reader)"
    by code_simp
  obtain out tr r' where run2:
    "LogReader_Read example_reader (replicate 5 (Fetched [])) [False, False, False, False] []
       = (out, tr, r')"
    by (cases "LogReader_Read example_reader (replicate 5 (Fetched []))
        [False, False, False, False] []") auto
  have "\<forall>d \<in> set [False, False, False, False]. \<not> d"
    by simp
  with C2_end_of_stream [OF run2] have "out \<noteq> End_of_stream"
    by blast
  with run2 C2_end_of_stream [OF run1] run1 show ?thesis
    by simp
qed

lemma reads_bounded:
  assumes "delivery_inv um s"
  shows "length (conn_read s) \<le> Suc (length (consumer s))"
proof -
  have len: "length (conn_read s) = length (map (after_read um) (conn_read s))"
    by simp
  show ?thesis
  proof (cases "task s")
    case At_ReadMessage
    with assms have "map (after_read um) (conn_read s) = map At_send_then_loop (consumer s)"
      by (simp add: delivery_inv_def)
    with len show ?thesis by simp
  next
    case (At_send_then_loop ev)
    with assms have "map (after_read um) (conn_read s)
        = map At_send_then_loop (consumer s @ [ev])"
      by (simp add: delivery_inv_def)
    with len show ?thesis by simp
  next
    case (At_send_then_return ev)
    with assms have "map (after_read um) (conn_read s)
        = map At_send_then_loop (consumer s) @ [At_send_then_return ev]"
      by (simp add: delivery_inv_def)
    with len show ?thesis by simp
  next
    case Returned
    with assms have "map (after_read um) (conn_read s)
        = map At_send_then_loop (butlast (consumer s)) @ [At_send_then_return (last (consumer s))]"
      by (simp add: delivery_inv_def)
    with len show ?thesis by simp
  qed
qed

lemma send_waits_step:
  assumes "ch_cap (ch s) = 0"
    and "task s = At_send_then_loop ev \<or> task s = At_send_then_return ev"
    and "a \<noteq> Recv"
  shows "task (step um a s) = task s \<and> ch (step um a s) = ch s
       \<and> conn_read (step um a s) = conn_read s
       \<and> conn_incoming (step um a s) = conn_incoming s
       \<and> consumer (step um a s) = consumer s"
proof (cases a)
  case Task
  with assms(1,2) show ?thesis
    by (auto simp: step_def task_step_def)
next
  case Recv
  with assms(3) show ?thesis by simp
next
  case (Close_call werr)
  then show ?thesis
    by (simp add: step_def Close_frame)
qed

lemma send_waits_exec:
  assumes "ch_cap (ch s) = 0"
    and "task s = At_send_then_loop ev \<or> task s = At_send_then_return ev"
    and "Recv \<notin> set acts"
  shows "task (exec um acts s) = task s \<and> ch (exec um acts s) = ch s
       \<and> conn_read (exec um acts s) = conn_read s
       \<and> conn_incoming (exec um acts s) = conn_incoming s
       \<and> consumer (exec um acts s) = consumer s"
  using assms
proof (induction acts arbitrary: s)
  case Nil
  then show ?case by simp
next
  case (Cons a acts)
  from Cons.prems have a: "a \<noteq> Recv" and rest: "Recv \<notin> set acts"
    by auto
  note st = send_waits_step [OF Cons.prems(1,2) a, of um]
  from st Cons.prems(1,2) have "ch_cap (ch (step um a s)) = 0"
    and "task (step um a s) = At_send_then_loop ev \<or> task (step um a s) = At_send_then_return ev"
    by simp_all
  from Cons.IH [OF this rest] st show ?case
    by simp
qed

text \<open>
  C8. The channel \<open>Subscribe\<close> makes has capacity zero, and under every schedule it
  keeps that capacity and never holds an event: each event passes straight from the
  goroutine's send to a receive of the consumer. The goroutine has read at most one
  frame more than the consumer has received events; and while it stands in a send, no
  schedule without a receive moves it: it reads nothing further from the connection
  until the consumer receives.
\<close>

theorem C8_unbuffered_queue:
  assumes sub: "Subscribe Dial c id' n = (Inr s0, n1)"
    and run: "s = exec unmarshal acts s0"
  shows "ch s0 = make_chan 0 \<and> ch_cap (ch s) = 0 \<and> ch_buf (ch s) = []
       \<and> length (conn_read s) \<le> Suc (length (consumer s))
       \<and> ((task s = At_send_then_loop ev \<or> task s = At_send_then_return ev)
            \<and> Recv \<notin> set acts' \<longrightarrow>
          task (exec unmarshal acts' s) = task s
          \<and> conn_read (exec unmarshal acts' s) = conn_read s
          \<and> conn_incoming (exec unmarshal acts' s) = conn_incoming s
          \<and> consumer (exec unmarshal acts' s) = consumer s)"
proof -
  have inv: "delivery_inv unmarshal s"
    using sub run by (simp add: delivery_inv_reach)
  then have cap: "ch_cap (ch s) = 0" and buf: "ch_buf (ch s) = []"
    by (simp_all add: delivery_inv_def)
  from Subscribe_Inr [OF sub] have mk: "ch s0 = make_chan 0"
    by auto
  from mk cap buf reads_bounded [OF inv] send_waits_exec [OF cap, of ev acts' unmarshal]
  show ?thesis
    by blast
qed

theorem C8_unbuffered_queue_witness:
  "Subscribe table_Dial scripted_client ''sub-1'' ([], [(events_url, map Read_message scenario_A)])
     = (Inr (started (map Read_message scenario_A)),
        ([events_url], [(events_url, map Read_message scenario_A)]))
   \<and> ch (started (map Read_message scenario_A)) = make_chan 0
   \<and> task (exec tag_unmarshal [Task] (started (map Read_message scenario_A)))
       = At_send_then_loop \<lparr> Type = ''organization_created'', Payload = P_nil \<rparr>
   \<and> task (exec tag_unmarshal [Task, Close_call None, Task, Task]
        (exec tag_unmarshal [Task] (started (map Read_message scenario_A))))
       = At_send_then_loop \<lparr> Type = ''organization_created'', Payload = P_nil \<rparr>
   \<and> conn_read (exec tag_unmarshal [Task, Close_call None, Task, Task]
        (exec tag_unmarshal [Task] (started (map Read_message scenario_A))))
       = [Read_message ''organization_created'']
   \<and> consumer (exec tag_unmarshal [Task, Close_call None, Task, Task]
        (exec tag_unmarshal [Task] (started (map Read_message scenario_A)))) = []"
proof -
  let ?init = "started (map Read_message scenario_A)"
  let ?mid = "exec tag_unmarshal [Task] ?init"
  have sub: "Subscribe table_Dial scripted_client ''sub-1''
      ([], [(events_url, map Read_message scenario_A)])
     = (Inr ?init, ([events_url], [(events_url, map Read_message scenario_A)]))"
    by (rule Subscribe_table_Dial)
  have sending: "task ?mid = At_send_then_loop \<lparr> Type = ''organization_created'', Payload = P_nil \<rparr>"
    by code_simp
  have rd: "conn_read ?mid = [Read_message ''organization_created'']"
    by code_simp
  have got: "consumer ?mid = []"
    by code_simp
  have norecv: "Recv \<notin> set [Task, Close_call None, Task, Task]"
    by simp
  from C8_unbuffered_queue [OF sub refl, of tag_unmarshal "[Task]"
      "\<lparr> Type = ''organization_created'', Payload = P_nil \<rparr>"
      "[Task, Close_call None, Task, Task]"] sending norecv rd got sub
  show ?thesis
    by simp
qed

lemma after_failure_step:
  assumes "after_failure got rd inc ev s"
  shows "after_failure got rd inc ev (step um a s)"
proof (cases a)
  case Task
  with assms show ?thesis
    by (auto simp: step_def task_step_def after_failure_def)
next
  case Recv
  with assms show ?thesis
    by (auto simp: step_def recv_step_def after_failure_def)
next
  case (Close_call werr)
  with assms show ?thesis
    by (simp add: step_def after_failure_def Close_frame)
qed

lemma after_failure_exec:
  "after_failure got rd inc ev s \<Longrightarrow> after_failure got rd inc ev (exec um acts s)"
  by (induction acts arbitrary: s) (simp_all add: after_failure_step)

lemma after_failure_Recv:
  assumes "after_failure got rd inc ev s"
  shows "task (step um Recv s) = Returned"
  using assms
  by (auto simp: step_def recv_step_def after_failure_def)

lemma Returned_step:
  assumes "after_failure got rd inc ev s" and "task s = Returned"
  shows "task (step um a s) = Returned"
proof (cases a)
  case Task
  with assms show ?thesis
    by (simp add: step_def task_step_def)
next
  case Recv
  with assms show ?thesis
    by (simp add: after_failure_Recv)
next
  case (Close_call werr)
  with assms show ?thesis
    by (simp add: step_def Close_frame)
qed

lemma Returned_exec:
  "after_failure got rd inc ev s \<Longrightarrow> task s = Returned \<Longrightarrow> task (exec um acts s) = Returned"
  by (induction acts arbitrary: s) (simp_all add: after_failure_step Returned_step)

lemma after_failure_received:
  "after_failure got rd inc ev s \<Longrightarrow> Recv \<in> set acts \<Longrightarrow> task (exec um acts s) = Returned"
proof (induction acts arbitrary: s)
  case Nil
  then show ?case by simp
next
  case (Cons a acts)
  show ?case
  proof (cases "a = Recv")
    case True
    with Cons.prems(1) have "task (step um a s) = Returned"
      by (simp add: after_failure_Recv)
    from Returned_exec [OF after_failure_step [OF Cons.prems(1)] this] show ?thesis
      by simp
  next
    case False
    with Cons.prems(2) have "Recv \<in> set acts"
      by simp
    with Cons.IH Cons.prems(1) show ?thesis
      by (simp add: after_failure_step)
  qed
qed

lemma after_read_failure:
  assumes "(\<exists>e. r = Read_error e) \<or> (\<exists>m e. r = Read_message m \<and> um m = Inl e)"
  shows "\<exists>ev. after_read um r = At_send_then_return ev
          \<and> Type ev = EventError
          \<and> ((\<exists>e. r = Read_error e
                \<and> Payload ev = P_string (''websocket read error: '' @ e @ [CHR 0x0A]))
              \<or> (\<exists>m e. r = Read_message m \<and> um m = Inl e
                \<and> Payload ev = P_string (''websocket decode error: '' @ e @ [CHR 0x0A])))"
  using assms
  by (elim disjE exE) (simp_all add: after_read_def)

text \<open>
  C3. Take a subscription returned by \<open>Subscribe\<close>, at a moment when its goroutine is
  in \<open>ReadMessage\<close> and the next read fails or gives a message that does not decode.
  The goroutine then stands in the send of one event of type \<open>EventError\<close> whose
  payload is the message \<open>websocket read error: ...\<close> or
  \<open>websocket decode error: ...\<close> built from the error. Under every schedule that
  follows, either that send is still waiting and the consumer has received nothing new,
  or the goroutine has returned and the consumer has received this one event and no
  other (and so it is once the consumer has received); no further frame is read, and the
  channel is never closed.
\<close>

theorem C3_one_error_event:
  assumes sub: "Subscribe Dial c id' n = (Inr s0, n1)"
    and run: "s = exec unmarshal acts0 s0"
    and at_read: "task s = At_ReadMessage"
    and incoming: "conn_incoming s = r # rest"
    and fails: "(\<exists>e. r = Read_error e) \<or> (\<exists>m e. r = Read_message m \<and> unmarshal m = Inl e)"
    and later: "s' = exec unmarshal acts (step unmarshal Task s)"
  shows "\<exists>ev. task (step unmarshal Task s) = At_send_then_return ev
          \<and> Type ev = EventError
          \<and> ((\<exists>e. r = Read_error e
                \<and> Payload ev = P_string (''websocket read error: '' @ e @ [CHR 0x0A]))
              \<or> (\<exists>m e. r = Read_message m \<and> unmarshal m = Inl e
                \<and> Payload ev = P_string (''websocket decode error: '' @ e @ [CHR 0x0A])))
          \<and> (task s' = At_send_then_return ev \<and> consumer s' = consumer s
              \<or> task s' = Returned \<and> consumer s' = consumer s @ [ev])
          \<and> (Recv \<in> set acts \<longrightarrow> task s' = Returned \<and> consumer s' = consumer s @ [ev])
          \<and> conn_read s' = conn_read s @ [r] \<and> conn_incoming s' = rest
          \<and> \<not> ch_closed (ch s') \<and> ch_buf (ch s') = []"
proof -
  have inv: "delivery_inv unmarshal s"
    using sub run by (simp add: delivery_inv_reach)
  from after_read_failure [OF fails]
  obtain ev where ev: "after_read unmarshal r = At_send_then_return ev"
    and ty: "Type ev = EventError"
    and pay: "(\<exists>e. r = Read_error e
                \<and> Payload ev = P_string (''websocket read error: '' @ e @ [CHR 0x0A]))
              \<or> (\<exists>m e. r = Read_message m \<and> unmarshal m = Inl e
                \<and> Payload ev = P_string (''websocket decode error: '' @ e @ [CHR 0x0A]))"
    by blast
  let ?s1 = "step unmarshal Task s"
  have s1: "?s1 = s\<lparr> conn_incoming := rest, conn_read := conn_read s @ [r],
                     task := At_send_then_return ev \<rparr>"
    using at_read incoming ev by (simp add: step_def task_step_def)
  have start: "after_failure (consumer s) (conn_read s @ [r]) rest ev ?s1"
    using inv by (simp add: s1 after_failure_def delivery_inv_def)
  then have fin: "after_failure (consumer s) (conn_read s @ [r]) rest ev s'"
    unfolding later by (rule after_failure_exec)
  have recvd: "task s' = Returned" if "Recv \<in> set acts"
    unfolding later using start that by (rule after_failure_received)
  have t1: "task ?s1 = At_send_then_return ev"
    by (simp add: s1)
  from fin have parts: "(task s' = At_send_then_return ev \<and> consumer s' = consumer s
              \<or> task s' = Returned \<and> consumer s' = consumer s @ [ev])"
    "conn_read s' = conn_read s @ [r]" "conn_incoming s' = rest"
    "\<not> ch_closed (ch s')" "ch_buf (ch s') = []"
    by (simp_all add: after_failure_def)
  from parts(1) recvd have "Recv \<in> set acts \<longrightarrow> task s' = Returned \<and> consumer s' = consumer s @ [ev]"
    by auto
  with t1 ty pay parts show ?thesis
    by blast
qed

theorem C3_one_error_event_witness:
  "task (exec tag_unmarshal [Task, Recv]
      (started [Read_message ''run_created'', Read_message ''bogus'', Read_message ''run_planned'']))
     = At_ReadMessage
   \<and> tag_unmarshal ''bogus'' = Inl ''invalid character''
   \<and> task (exec tag_unmarshal [Recv, Task, Recv, Close_call None]
        (step tag_unmarshal Task (exec tag_unmarshal [Task, Recv]
          (started [Read_message ''run_created'', Read_message ''bogus'',
                    Read_message ''run_planned''])))) = Returned
   \<and> consumer (exec tag_unmarshal [Recv, Task, Recv, Close_call None]
        (step tag_unmarshal Task (exec tag_unmarshal [Task, Recv]
          (started [Read_message ''run_created'', Read_message ''bogus'',
                    Read_message ''run_planned'']))))
       = [\<lparr> Type = ''run_created'', Payload = P_nil \<rparr>,
          \<lparr> Type = EventError,
            Payload = P_string (''websocket decode error: invalid character'' @ [CHR 0x0A]) \<rparr>]
   \<and> conn_incoming (exec tag_unmarshal [Recv, Task, Recv, Close_call None]
        (step tag_unmarshal Task (exec tag_unmarshal [Task, Recv]
          (started [Read_message ''run_created'', Read_message ''bogus'',
                    Read_message ''run_planned'']))))
       = [Read_message ''run_planned'']
   \<and> \<not> ch_closed (ch (exec tag_unmarshal [Recv, Task, Recv, Close_call None]
        (step tag_unmarshal Task (exec tag_unmarshal [Task, Recv]
          (started [Read_message ''run_created'', Read_message ''bogus'',
                    Read_message ''run_planned''])))))"
proof -
  let ?inc = "[Read_message ''run_created'', Read_message ''bogus'', Read_message ''run_planned'']"
  let ?at = "exec tag_unmarshal [Task, Recv] (started ?inc)"
  let ?fin = "exec tag_unmarshal [Recv, Task, Recv, Close_call None] (step tag_unmarshal Task ?at)"
  let ?err = "\<lparr> Type = EventError,
            Payload = P_string (''websocket decode error: invalid character'' @ [CHR 0x0A]) \<rparr>"
  have sub: "Subscribe table_Dial scripted_client ''sub-1'' ([], [(events_url, ?inc)])
     = (Inr (started ?inc), ([events_url], [(events_url, ?inc)]))"
    by (rule Subscribe_table_Dial)
  have at_read: "task ?at = At_ReadMessage"
    by code_simp
  have inc: "conn_incoming ?at = Read_message ''bogus'' # [Read_message ''run_planned'']"
    by code_simp
  have bogus: "tag_unmarshal ''bogus'' = Inl ''invalid character''"
    by (simp add: tag_unmarshal_def EventType_constants_def EventType_defs)
  then have fails: "(\<exists>e. Read_message ''bogus'' = Read_error e)
      \<or> (\<exists>m e. Read_message ''bogus'' = Read_message m \<and> tag_unmarshal m = Inl e)"
    by simp
  have sending: "task (step tag_unmarshal Task ?at) = At_send_then_return ?err"
    by code_simp
  have got: "consumer ?at = [\<lparr> Type = ''run_created'', Payload = P_nil \<rparr>]"
    by code_simp
  have recv: "Recv \<in> set [Recv, Task, Recv, Close_call None]"
    by simp
  from C3_one_error_event [OF sub refl at_read inc fails refl,
      of "[Recv, Task, Recv, Close_call None]"]
  obtain ev where ev: "task (step tag_unmarshal Task ?at) = At_send_then_return ev"
    and fin: "Recv \<in> set [Recv, Task, Recv, Close_call None] \<longrightarrow>
          task ?fin = Returned \<and> consumer ?fin = consumer ?at @ [ev]"
    and rest: "conn_incoming ?fin = [Read_message ''run_planned'']"
    and opn: "\<not> ch_closed (ch ?fin)"
    by blast
  from ev sending have "ev = ?err"
    by simp
  with fin recv got have "task ?fin = Returned"
    and "consumer ?fin = [\<lparr> Type = ''run_created'', Payload = P_nil \<rparr>, ?err]"
    by simp_all
  with at_read bogus rest opn show ?thesis
    by blast
qed

section \<open>Events after \<open>Close\<close>\<close>

text \<open>
  C4, at an input where the code departs from it. The server of this subscription pushes
  one event and then answers the close handshake, which ends the reads with an error.
  \<open>Close()\<close> is called first: it returns no error and has written the close frame,
  the connection is not closed and the consumer has received nothing. It does nothing
  else, so the goroutine goes on: the consumer then receives the event and, after it,
  the error event of the failed read. Both are delivered after \<open>Close()\<close> has
  returned.
\<close>

theorem C4_events_after_Close:
  "Subscribe table_Dial scripted_client ''sub-1''
       ([], [(events_url, [Read_message ''run_created'',
                           Read_error ''websocket: close 1000 (normal)''])])
     = (Inr (started [Read_message ''run_created'',
                      Read_error ''websocket: close 1000 (normal)'']),
        ([events_url], [(events_url, [Read_message ''run_created'',
                           Read_error ''websocket: close 1000 (normal)''])]))
   \<and> fst (Close None (started [Read_message ''run_created'',
                               Read_error ''websocket: close 1000 (normal)''])) = None
   \<and> conn_written (snd (Close None (started [Read_message ''run_created'',
                               Read_error ''websocket: close 1000 (normal)''])))
       = [CloseMessage 1000 []]
   \<and> conn_closed (snd (Close None (started [Read_message ''run_created'',
                               Read_error ''websocket: close 1000 (normal)'']))) = False
   \<and> consumer (snd (Close None (started [Read_message ''run_created'',
                               Read_error ''websocket: close 1000 (normal)'']))) = []
   \<and> consumer (exec tag_unmarshal [Task, Recv, Task, Recv]
         (snd (Close None (started [Read_message ''run_created'',
                               Read_error ''websocket: close 1000 (normal)'']))))
       = [\<lparr> Type = ''run_created'', Payload = P_nil \<rparr>,
          \<lparr> Type = ''error'',
            Payload = P_string (''websocket read error: websocket: close 1000 (normal)''
                                @ [CHR 0x0A]) \<rparr>]"
proof -
  let ?inc = "[Read_message ''run_created'', Read_error ''websocket: close 1000 (normal)'']"
  have sub: "Subscribe table_Dial scripted_client ''sub-1'' ([], [(events_url, ?inc)])
     = (Inr (started ?inc), ([events_url], [(events_url, ?inc)]))"
    by (rule Subscribe_table_Dial)
  have c1: "fst (Close None (started ?inc)) = None"
    by code_simp
  have c2: "conn_written (snd (Close None (started ?inc))) = [CloseMessage 1000 []]"
    by code_simp
  have c3: "conn_closed (snd (Close None (started ?inc))) = False"
    by code_simp
  have c4: "consumer (snd (Close None (started ?inc))) = []"
    by code_simp
  have c5: "consumer (exec tag_unmarshal [Task, Recv, Task, Recv] (snd (Close None (started ?inc))))
       = [\<lparr> Type = ''run_created'', Payload = P_nil \<rparr>,
          \<lparr> Type = ''error'',
            Payload = P_string (''websocket read error: websocket: close 1000 (normal)''
                                @ [CHR 0x0A]) \<rparr>]"
    by code_simp
  from sub c1 c2 c3 c4 c5 show ?thesis
    by blast
qed

end
